theory Spec2Isabelle
  imports Complex_Main
begin

section \<open>JavaScript values\<close>

text \<open>
  The dashboard component is JavaScript. Its numbers are IEEE doubles; the model keeps the
  three non-finite values apart and takes every finite double as the rational it denotes,
  with exact arithmetic (rounding of the binary format, overflow to Infinity and underflow
  to zero are outside the model; the sign of zero is not kept, and no operation of the
  component tells the two zeros apart).
\<close>

datatype jsnum = NaN | PosInf | NegInf | Fin rat

text \<open>
  The cell of a parsed CSV row: PapaParse with \<^verbatim>\<open>dynamicTyping\<close> yields strings, numbers,
  booleans and null; a column that the row does not have reads as undefined.
\<close>

datatype jsval = JUndefined | JNull | JBool bool | JNum jsnum | JStr string

type_synonym row = "string \<rightharpoonup> jsval"

definition row_get :: "row \<Rightarrow> string \<Rightarrow> jsval" where
  "row_get r k = (case r k of None \<Rightarrow> JUndefined | Some v \<Rightarrow> v)"

fun truthy :: "jsval \<Rightarrow> bool" where
  "truthy JUndefined = False"
| "truthy JNull = False"
| "truthy (JBool b) = b"
| "truthy (JNum NaN) = False"
| "truthy (JNum (Fin q)) = (q \<noteq> 0)"
| "truthy (JNum _) = True"
| "truthy (JStr s) = (s \<noteq> [])"

text \<open>\<^verbatim>\<open>a || b\<close>\<close>

definition js_or :: "jsval \<Rightarrow> jsval \<Rightarrow> jsval" where
  "js_or a b = (if truthy a then a else b)"

subsection \<open>Number arithmetic and comparison\<close>

fun js_add :: "jsnum \<Rightarrow> jsnum \<Rightarrow> jsnum" where
  "js_add NaN _ = NaN"
| "js_add _ NaN = NaN"
| "js_add PosInf NegInf = NaN"
| "js_add NegInf PosInf = NaN"
| "js_add PosInf _ = PosInf"
| "js_add _ PosInf = PosInf"
| "js_add NegInf _ = NegInf"
| "js_add _ NegInf = NegInf"
| "js_add (Fin a) (Fin b) = Fin (a + b)"

fun js_div :: "jsnum \<Rightarrow> jsnum \<Rightarrow> jsnum" where
  "js_div NaN _ = NaN"
| "js_div _ NaN = NaN"
| "js_div (Fin a) (Fin b) =
     (if b = 0 then (if a = 0 then NaN else if 0 < a then PosInf else NegInf)
      else Fin (a / b))"
| "js_div (Fin a) _ = Fin 0"
| "js_div PosInf (Fin b) = (if 0 \<le> b then PosInf else NegInf)"
| "js_div NegInf (Fin b) = (if 0 \<le> b then NegInf else PosInf)"
| "js_div _ _ = NaN"

text \<open>\<^verbatim>\<open>a < b\<close> and \<^verbatim>\<open>a > b\<close> on numbers: false as soon as one side is NaN.\<close>

fun js_lt :: "jsnum \<Rightarrow> jsnum \<Rightarrow> bool" where
  "js_lt NaN _ = False"
| "js_lt _ NaN = False"
| "js_lt PosInf _ = False"
| "js_lt _ NegInf = False"
| "js_lt NegInf _ = True"
| "js_lt _ PosInf = True"
| "js_lt (Fin a) (Fin b) = (a < b)"

definition js_gt :: "jsnum \<Rightarrow> jsnum \<Rightarrow> bool" where
  "js_gt a b = js_lt b a"

definition js_le :: "jsnum \<Rightarrow> jsnum \<Rightarrow> bool" where
  "js_le a b = (a \<noteq> NaN \<and> b \<noteq> NaN \<and> \<not> js_lt b a)"

definition isNaN :: "jsnum \<Rightarrow> bool" where
  "isNaN x = (x = NaN)"

text \<open>\<^verbatim>\<open>Math.max(...arr)\<close> and \<^verbatim>\<open>Math.min(...arr)\<close>: NaN if an argument is NaN, and
  \<open>-Infinity\<close> (\<open>+Infinity\<close>) on no argument. (The limit of an engine on the number of
  arguments of a call is outside the model.)\<close>

definition js_max2 :: "jsnum \<Rightarrow> jsnum \<Rightarrow> jsnum" where
  "js_max2 a b = (if a = NaN \<or> b = NaN then NaN else if js_lt a b then b else a)"

definition js_min2 :: "jsnum \<Rightarrow> jsnum \<Rightarrow> jsnum" where
  "js_min2 a b = (if a = NaN \<or> b = NaN then NaN else if js_lt b a then b else a)"

definition Math_max :: "jsnum list \<Rightarrow> jsnum" where
  "Math_max arr = foldl js_max2 NegInf arr"

definition Math_min :: "jsnum list \<Rightarrow> jsnum" where
  "Math_min arr = foldl js_min2 PosInf arr"

subsection \<open>Strings and numbers\<close>

definition is_digit :: "char \<Rightarrow> bool" where
  "is_digit c = (c \<in> set ''0123456789'')"

definition digit_val :: "char \<Rightarrow> nat" where
  "digit_val c = of_char c - 48"

definition digits_val :: "string \<Rightarrow> nat" where
  "digits_val ds = foldl (\<lambda>acc c. 10 * acc + digit_val c) 0 ds"

definition digit_char :: "nat \<Rightarrow> char" where
  "digit_char d = char_of (48 + d)"

text \<open>The decimal digits of a natural number, most significant first.\<close>

fun show_nat :: "nat \<Rightarrow> string" where
  "show_nat n = (if n < 10 then [digit_char n] else show_nat (n div 10) @ [digit_char (n mod 10)])"

declare show_nat.simps [simp del]

text \<open>White space that \<^verbatim>\<open>trim\<close> and \<^verbatim>\<open>parseFloat\<close> skip: the ASCII part of it (TAB, LF,
  VT, FF, CR, SP); a string is a list of bytes here.\<close>

definition is_ws :: "char \<Rightarrow> bool" where
  "is_ws c = (of_char c \<in> {9, 10, 11, 12, 13, 32 :: nat})"

definition trim :: "string \<Rightarrow> string" where
  "trim s = rev (dropWhile is_ws (rev (dropWhile is_ws s)))"

definition starts_with :: "string \<Rightarrow> string \<Rightarrow> bool" where
  "starts_with p s = (take (length p) s = p)"

text \<open>The \<^verbatim>\<open>ExponentPart\<close> of a decimal literal at the head of a string: its value, 0 when
  there is none (an \<^verbatim>\<open>e\<close> with no digits after it is not part of the literal).\<close>

definition exponent_part :: "string \<Rightarrow> int" where
  "exponent_part r =
     (case r of
        [] \<Rightarrow> 0
      | c # r1 \<Rightarrow>
          if c = CHR ''e'' \<or> c = CHR ''E'' then
            (let neg = starts_with ''-'' r1;
                 r2 = (if starts_with ''-'' r1 \<or> starts_with ''+'' r1 then tl r1 else r1);
                 ds = takeWhile is_digit r2
             in if ds = [] then 0
                else if neg then - int (digits_val ds) else int (digits_val ds))
          else 0)"

definition scale10 :: "rat \<Rightarrow> int \<Rightarrow> rat" where
  "scale10 q e = (if 0 \<le> e then q * 10 ^ nat e else q / 10 ^ nat (- e))"

text \<open>\<^verbatim>\<open>parseFloat\<close> on a string: leading white space is skipped and the longest prefix that
  is a \<^verbatim>\<open>StrDecimalLiteral\<close> is read; NaN when there is none.\<close>

definition parseFloat_str :: "string \<Rightarrow> jsnum" where
  "parseFloat_str s =
     (let s1 = dropWhile is_ws s;
          neg = starts_with ''-'' s1;
          s2 = (if starts_with ''-'' s1 \<or> starts_with ''+'' s1 then tl s1 else s1)
      in if starts_with ''Infinity'' s2 then (if neg then NegInf else PosInf)
         else
           (let ip = takeWhile is_digit s2;
                r1 = dropWhile is_digit s2;
                dot = starts_with ''.'' r1;
                fp = (if dot then takeWhile is_digit (tl r1) else []);
                r2 = (if dot then dropWhile is_digit (tl r1) else r1)
            in if ip = [] \<and> fp = [] then NaN
               else
                 (let m = of_nat (digits_val ip) + of_nat (digits_val fp) / 10 ^ length fp;
                      v = scale10 m (exponent_part r2)
                  in Fin (if neg then - v else v))))"

text \<open>
  The runtime the component runs in. What ECMAScript leaves to the implementation, or what
  depends on the binary format of numbers, is a parameter:
  \<^item> \<open>tza t\<close>: the offset of local time from UTC, in milliseconds, at the instant \<open>t\<close>;
  \<^item> \<open>parse_other s\<close>: what \<^verbatim>\<open>Date.parse\<close> makes of a string that is not a date-only
    ISO string (a time value, or nothing for NaN);
  \<^item> \<open>float_to_string q\<close>: \<^verbatim>\<open>Number::toString\<close> of a finite number that is not an integer
    below \<open>10^21\<close> in magnitude.
\<close>

record env =
  tza :: "int \<Rightarrow> int"
  parse_other :: "string \<Rightarrow> int option"
  float_to_string :: "rat \<Rightarrow> string"

definition is_integer :: "rat \<Rightarrow> bool" where
  "is_integer q = (of_int \<lfloor>q\<rfloor> = q)"

definition Number_toString :: "env \<Rightarrow> jsnum \<Rightarrow> string" where
  "Number_toString e x =
     (case x of
        NaN \<Rightarrow> ''NaN''
      | PosInf \<Rightarrow> ''Infinity''
      | NegInf \<Rightarrow> ''-Infinity''
      | Fin q \<Rightarrow>
          if is_integer q \<and> \<bar>q\<bar> < 10 ^ 21 then
            (if q < 0 then ''-'' @ show_nat (nat (- \<lfloor>q\<rfloor>)) else show_nat (nat \<lfloor>q\<rfloor>))
          else float_to_string e q)"

fun ToString :: "env \<Rightarrow> jsval \<Rightarrow> string" where
  "ToString e JUndefined = ''undefined''"
| "ToString e JNull = ''null''"
| "ToString e (JBool b) = (if b then ''true'' else ''false'')"
| "ToString e (JNum x) = Number_toString e x"
| "ToString e (JStr s) = s"

text \<open>\<^verbatim>\<open>parseFloat(v)\<close>: the argument is converted to a string first.\<close>

definition parseFloat :: "env \<Rightarrow> jsval \<Rightarrow> jsnum" where
  "parseFloat e v = parseFloat_str (ToString e v)"

text \<open>\<^verbatim>\<open>x || 0\<close> on a number.\<close>

definition num_or_zero :: "jsnum \<Rightarrow> jsnum" where
  "num_or_zero x = (if truthy (JNum x) then x else Fin 0)"

section \<open>Dates\<close>

text \<open>
  A \<^verbatim>\<open>Date\<close> object is its time value: milliseconds since the epoch in UTC, or nothing for
  an Invalid Date (the time value NaN). Days are turned into a civil date and back in the
  proleptic Gregorian calendar, as ECMAScript prescribes.
\<close>

definition is_leap :: "int \<Rightarrow> bool" where
  "is_leap y = (y mod 4 = 0 \<and> (y mod 100 \<noteq> 0 \<or> y mod 400 = 0))"

definition days_in_month :: "int \<Rightarrow> int \<Rightarrow> int" where
  "days_in_month y m =
     (if m = 2 then (if is_leap y then 29 else 28)
      else if m = 4 \<or> m = 6 \<or> m = 9 \<or> m = 11 then 30 else 31)"

definition days_from_civil :: "int \<Rightarrow> int \<Rightarrow> int \<Rightarrow> int" where
  "days_from_civil y m d =
     (let y1 = (if m \<le> 2 then y - 1 else y);
          era = y1 div 400;
          yoe = y1 - era * 400;
          doy = (153 * (if 2 < m then m - 3 else m + 9) + 2) div 5 + d - 1;
          doe = yoe * 365 + yoe div 4 - yoe div 100 + doy
      in era * 146097 + doe - 719468)"

text \<open>The month (1 to 12) and the day of the month of a day number.\<close>

definition month_day_from_days :: "int \<Rightarrow> int \<times> int" where
  "month_day_from_days z0 =
     (let z = z0 + 719468;
          era = z div 146097;
          doe = z - era * 146097;
          yoe = (doe - doe div 1460 + doe div 36524 - doe div 146096) div 365;
          doy = doe - (365 * yoe + yoe div 4 - yoe div 100);
          mp = (5 * doy + 2) div 153;
          d = doy - (153 * mp + 2) div 5 + 1;
          m = (if mp < 10 then mp + 3 else mp - 9)
      in (m, d))"

definition msPerDay :: int where
  "msPerDay = 86400000"

text \<open>A date-only ISO string \<^verbatim>\<open>YYYY-MM-DD\<close> of an existing day: UTC midnight of that day.\<close>

definition iso_date_only :: "string \<Rightarrow> int option" where
  "iso_date_only s =
     (let ys = take 4 s; ms = take 2 (drop 5 s); ds = drop 8 s;
          y = int (digits_val ys); m = int (digits_val ms); d = int (digits_val ds)
      in if length s = 10 \<and> s ! 4 = CHR ''-'' \<and> s ! 7 = CHR ''-''
            \<and> list_all is_digit ys \<and> list_all is_digit ms \<and> list_all is_digit ds
            \<and> 1 \<le> m \<and> m \<le> 12 \<and> 1 \<le> d \<and> d \<le> days_in_month y m
         then Some (days_from_civil y m d * msPerDay)
         else None)"

definition Date_parse :: "env \<Rightarrow> string \<Rightarrow> int option" where
  "Date_parse e s = (case iso_date_only s of Some t \<Rightarrow> Some t | None \<Rightarrow> parse_other e s)"

text \<open>\<^verbatim>\<open>TimeClip\<close>: a finite number of at most \<open>8.64 * 10^15\<close> in magnitude, truncated towards
  zero.\<close>

definition TimeClip :: "jsnum \<Rightarrow> int option" where
  "TimeClip x =
     (case x of
        Fin q \<Rightarrow>
          if \<bar>q\<bar> \<le> 8640000000000000 then Some (if 0 \<le> q then \<lfloor>q\<rfloor> else \<lceil>q\<rceil>) else None
      | _ \<Rightarrow> None)"

text \<open>\<^verbatim>\<open>new Date(v)\<close>: a string is parsed; any other value is converted to a number of
  milliseconds (undefined to NaN, null to 0, true to 1 and false to 0) and clipped.\<close>

definition new_Date :: "env \<Rightarrow> jsval \<Rightarrow> int option" where
  "new_Date e v =
     (case v of
        JStr s \<Rightarrow> Date_parse e s
      | JUndefined \<Rightarrow> TimeClip NaN
      | JNull \<Rightarrow> TimeClip (Fin 0)
      | JBool b \<Rightarrow> TimeClip (Fin (if b then 1 else 0))
      | JNum x \<Rightarrow> TimeClip x)"

definition month_short :: "int \<Rightarrow> string" where
  "month_short m =
     [''Jan'', ''Feb'', ''Mar'', ''Apr'', ''May'', ''Jun'',
      ''Jul'', ''Aug'', ''Sep'', ''Oct'', ''Nov'', ''Dec''] ! nat (m - 1)"

text \<open>\<^verbatim>\<open>date.toLocaleDateString('en-US', { month: 'short', day: 'numeric' })\<close>: the month and
  the day of the instant in local time.\<close>

definition toLocaleDateString :: "env \<Rightarrow> int option \<Rightarrow> string" where
  "toLocaleDateString e date =
     (case date of
        None \<Rightarrow> ''Invalid Date''
      | Some t \<Rightarrow>
          (let (m, d) = month_day_from_days ((t + tza e t) div msPerDay)
           in month_short m @ '' '' @ show_nat (nat d)))"

text \<open>\<^verbatim>\<open>a - b\<close> on two dates: the difference of the time values, NaN if one is invalid.\<close>

definition date_minus :: "int option \<Rightarrow> int option \<Rightarrow> jsnum" where
  "date_minus a b =
     (case (a, b) of (Some ta, Some tb) \<Rightarrow> Fin (of_int (ta - tb)) | _ \<Rightarrow> NaN)"

section \<open>The normalizer: \<open>processedData\<close>\<close>

text \<open>An element of \<^verbatim>\<open>processedData\<close>. \<open>displayDate\<close> is absent until the second pass sets it.\<close>

record reading =
  id_r :: nat
  date :: "int option"
  dateStr :: string
  sugarLevel :: jsnum
  type_r :: jsval
  time :: jsval
  notes_r :: jsval
  displayDate :: "string option"

text \<open>The callback of the first \<^verbatim>\<open>map\<close>.\<close>

definition make_item :: "env \<Rightarrow> row \<Rightarrow> nat \<Rightarrow> reading" where
  "make_item e r index =
     (let date = new_Date e (row_get r ''date'')
      in \<lparr> id_r = index,
           date = date,
           dateStr = toLocaleDateString e date,
           sugarLevel = num_or_zero (parseFloat e (row_get r ''sugarLevel'')),
           type_r = js_or (row_get r ''type'') (JStr ''UNKNOWN''),
           time = js_or (row_get r ''time'') (JStr ''''),
           notes_r = js_or (row_get r ''notes'') (JStr ''''),
           displayDate = None \<rparr>)"

text \<open>The callback of \<^verbatim>\<open>filter\<close>.\<close>

definition valid_item :: "reading \<Rightarrow> bool" where
  "valid_item item = (\<not> isNaN (sugarLevel item) \<and> js_gt (sugarLevel item) (Fin 0))"

text \<open>The comparator of \<^verbatim>\<open>sort\<close>.\<close>

definition by_date :: "reading \<Rightarrow> reading \<Rightarrow> jsnum" where
  "by_date a b = date_minus (date a) (date b)"

text \<open>
  \<^verbatim>\<open>Array.prototype.sort\<close> with a comparator, as a stable insertion sort: each element in
  turn is moved left past the elements of the sorted prefix that the comparator puts
  strictly after it. A comparator result NaN counts as 0 (\<^verbatim>\<open>SortCompare\<close>). The prefix is
  kept reversed, so that its last element is at the head. On a consistent comparator every
  stable sort gives this result; on an inconsistent one (here: as soon as a date is
  invalid) ECMAScript leaves the order to the implementation, and this is the order of an
  insertion sort.
\<close>

definition SortCompare :: "('a \<Rightarrow> 'a \<Rightarrow> jsnum) \<Rightarrow> 'a \<Rightarrow> 'a \<Rightarrow> jsnum" where
  "SortCompare comparefn x y = (let v = comparefn x y in if v = NaN then Fin 0 else v)"

fun insert_left :: "('a \<Rightarrow> 'a \<Rightarrow> jsnum) \<Rightarrow> 'a \<Rightarrow> 'a list \<Rightarrow> 'a list" where
  "insert_left comparefn x [] = [x]"
| "insert_left comparefn x (y # ys) =
     (if js_gt (SortCompare comparefn y x) (Fin 0) then y # insert_left comparefn x ys
      else x # y # ys)"

definition Array_sort :: "('a \<Rightarrow> 'a \<Rightarrow> jsnum) \<Rightarrow> 'a list \<Rightarrow> 'a list" where
  "Array_sort comparefn arr = rev (foldl (\<lambda>prefix x. insert_left comparefn x prefix) [] arr)"

text \<open>\<^verbatim>\<open>bloodSugarData.map(...).filter(...).sort(...)\<close>\<close>

definition mapped :: "env \<Rightarrow> row list \<Rightarrow> reading list" where
  "mapped e bloodSugarData =
     map (\<lambda>(r, index). make_item e r index) (zip bloodSugarData [0 ..< length bloodSugarData])"

definition processed :: "env \<Rightarrow> row list \<Rightarrow> reading list" where
  "processed e bloodSugarData = Array_sort by_date (filter valid_item (mapped e bloodSugarData))"

text \<open>
  The second pass, with the object \<^verbatim>\<open>dateCounts\<close> threaded through: a key that is not there
  reads as undefined, which \<^verbatim>\<open>|| 0\<close> turns into 0.
\<close>

definition timeStr :: "env \<Rightarrow> reading \<Rightarrow> nat \<Rightarrow> string" where
  "timeStr e item n =
     (if truthy (time item) then '' ('' @ ToString e (time item) @ '')''
      else '' #'' @ show_nat n)"

fun add_labels :: "env \<Rightarrow> (string \<rightharpoonup> nat) \<Rightarrow> reading list \<Rightarrow> reading list" where
  "add_labels e dateCounts [] = []"
| "add_labels e dateCounts (item # rest) =
     (let baseDate = dateStr item;
          n = (case dateCounts baseDate of None \<Rightarrow> 0 | Some c \<Rightarrow> c) + 1;
          dateCounts1 = dateCounts(baseDate \<mapsto> n);
          item1 = (if 1 < n then item\<lparr>displayDate := Some (baseDate @ timeStr e item n)\<rparr>
                   else item\<lparr>displayDate := Some baseDate\<rparr>)
      in item1 # add_labels e dateCounts1 rest)"

definition processedData :: "env \<Rightarrow> row list \<Rightarrow> reading list" where
  "processedData e bloodSugarData =
     (if length bloodSugarData = 0 then []
      else add_labels e Map.empty (processed e bloodSugarData))"

section \<open>The aggregator: \<open>stats\<close>\<close>

definition fastingData :: "reading list \<Rightarrow> reading list" where
  "fastingData pd = filter (\<lambda>d. type_r d = JStr ''FASTING'') pd"

definition randomData :: "reading list \<Rightarrow> reading list" where
  "randomData pd = filter (\<lambda>d. type_r d = JStr ''RANDOM'') pd"

text \<open>\<^verbatim>\<open>arr.reduce((a, b) => a + b, 0) / arr.length\<close>\<close>

definition avg_arr :: "jsnum list \<Rightarrow> jsnum" where
  "avg_arr arr = js_div (foldl js_add (Fin 0) arr) (Fin (of_nat (length arr)))"

text \<open>
  \<^verbatim>\<open>x.toFixed(f)\<close>: the sign, then the digits of the integer \<open>n\<close> for which \<open>n / 10^f\<close> is
  nearest to the magnitude (the larger \<open>n\<close> of two), padded with zeros to \<open>f + 1\<close> digits, a
  point before the last \<open>f\<close> of them. From \<open>10^21\<close> on, and for NaN and the infinities, the
  result is that of \<^verbatim>\<open>ToString\<close>.
\<close>

definition toFixed :: "env \<Rightarrow> nat \<Rightarrow> jsnum \<Rightarrow> string" where
  "toFixed e f x =
     (case x of
        Fin q \<Rightarrow>
          (let s = (if q < 0 then ''-'' else '''');
               a = \<bar>q\<bar>
           in if 10 ^ 21 \<le> a then s @ Number_toString e (Fin a)
              else
                (let n = nat \<lfloor>a * 10 ^ f + 1 / 2\<rfloor>;
                     m = show_nat n;
                     m1 = (if f \<noteq> 0 \<and> length m \<le> f
                           then replicate (f + 1 - length m) (CHR ''0'') @ m else m)
                 in s @ (if f \<noteq> 0
                         then take (length m1 - f) m1 @ ''.'' @ drop (length m1 - f) m1
                         else m1)))
      | _ \<Rightarrow> Number_toString e x)"

record group_stats =
  avg :: jsval
  max_r :: jsval
  min_r :: jsval
  count :: nat

record stats_t =
  overall :: group_stats
  fasting :: group_stats
  random :: group_stats

definition not_available :: group_stats where
  "not_available = \<lparr> avg = JStr ''N/A'', max_r = JStr ''N/A'', min_r = JStr ''N/A'', count = 0 \<rparr>"

text \<open>\<open>stats\<close> reads \<^verbatim>\<open>processedData\<close>, \<^verbatim>\<open>fastingData\<close> and \<^verbatim>\<open>randomData\<close> of the component
  (\<open>pd\<close>, \<open>fd\<close> and \<open>rd\<close>).\<close>

definition stats :: "env \<Rightarrow> reading list \<Rightarrow> reading list \<Rightarrow> reading list \<Rightarrow> stats_t" where
  "stats e pd fd rd =
     (if length pd = 0 then
        \<lparr> overall = not_available, fasting = not_available, random = not_available \<rparr>
      else
        (let allLevels = map sugarLevel pd;
             fastingLevels = map sugarLevel fd;
             randomLevels = map sugarLevel rd
         in \<lparr> overall =
                \<lparr> avg = JStr (toFixed e 1 (avg_arr allLevels)),
                  max_r = JNum (Math_max allLevels),
                  min_r = JNum (Math_min allLevels),
                  count = length allLevels \<rparr>,
              fasting =
                \<lparr> avg = (if length fastingLevels \<noteq> 0
                         then JStr (toFixed e 1 (avg_arr fastingLevels)) else JStr ''N/A''),
                  max_r = (if length fastingLevels \<noteq> 0
                           then JNum (Math_max fastingLevels) else JStr ''N/A''),
                  min_r = (if length fastingLevels \<noteq> 0
                           then JNum (Math_min fastingLevels) else JStr ''N/A''),
                  count = length fastingLevels \<rparr>,
              random =
                \<lparr> avg = (if length randomLevels \<noteq> 0
                         then JStr (toFixed e 1 (avg_arr randomLevels)) else JStr ''N/A''),
                  max_r = (if length randomLevels \<noteq> 0
                           then JNum (Math_max randomLevels) else JStr ''N/A''),
                  min_r = (if length randomLevels \<noteq> 0
                           then JNum (Math_min randomLevels) else JStr ''N/A''),
                  count = length randomLevels \<rparr> \<rparr>))"

text \<open>The statistics the component shows for the rows it holds.\<close>

definition dashboard_stats :: "env \<Rightarrow> row list \<Rightarrow> stats_t" where
  "dashboard_stats e bloodSugarData =
     (let pd = processedData e bloodSugarData
      in stats e pd (fastingData pd) (randomData pd))"

section \<open>The loader: \<open>loadCSVData\<close>\<close>

text \<open>
  What \<^verbatim>\<open>await fetch(url)\<close> comes to: the promise is rejected with an error (its message),
  or it resolves to a response, whose \<^verbatim>\<open>text()\<close> resolves to the body or is rejected in
  turn.
\<close>

record response =
  ok :: bool
  status :: nat
  statusText :: string
  text_r :: "string + string"

datatype fetch_result = Rejected string | Resolved response

text \<open>PapaParse, on a text: it calls \<^verbatim>\<open>complete\<close> with the rows (each a list of header and
  cell, in column order) and the warnings, or \<^verbatim>\<open>error\<close> with a message.\<close>

datatype parse_result = Complete "(string \<times> jsval) list list" "string list" | ParseError string

record loader_env =
  VITE_GOOGLE_SHEET_ID :: "string option"
  fetch :: "string \<Rightarrow> fetch_result"
  Papa_parse :: "string \<Rightarrow> parse_result"

text \<open>The state of the component that the loader writes, and the URLs fetched so far.\<close>

record state =
  bloodSugarData :: "row list"
  loading :: bool
  error :: "string option"
  fetched :: "string list"

definition GOOGLE_SHEET_URL :: "loader_env \<Rightarrow> string" where
  "GOOGLE_SHEET_URL le =
     ''https://docs.google.com/spreadsheets/d/''
       @ (case VITE_GOOGLE_SHEET_ID le of None \<Rightarrow> ''undefined'' | Some i \<Rightarrow> i)
       @ ''/export?format=csv&gid=0''"

definition LOCAL_CSV_URL :: string where
  "LOCAL_CSV_URL = ''/data/bloodsugar-data.csv''"

text \<open>The \<^verbatim>\<open>catch\<close> block.\<close>

definition catch_err :: "state \<Rightarrow> string \<Rightarrow> state" where
  "catch_err st message = st\<lparr>error := Some (''Error loading CSV file: '' @ message), loading := False\<rparr>"

text \<open>Headers are trimmed; of two columns with the same trimmed header the later one stays.\<close>

definition cleanedRow :: "(string \<times> jsval) list \<Rightarrow> row" where
  "cleanedRow r = foldl (\<lambda>acc (key, v). acc(trim key \<mapsto> v)) Map.empty r"

definition parseCSV :: "loader_env \<Rightarrow> state \<Rightarrow> string \<Rightarrow> string \<Rightarrow> state" where
  "parseCSV le st csvData source =
     (case Papa_parse le csvData of
        Complete data errors \<Rightarrow> st\<lparr>bloodSugarData := map cleanedRow data, loading := False\<rparr>
      | ParseError message \<Rightarrow>
          st\<lparr>error := Some (''Error parsing CSV from '' @ source @ '': '' @ message),
             loading := False\<rparr>)"

definition do_fetch :: "loader_env \<Rightarrow> state \<Rightarrow> string \<Rightarrow> fetch_result \<times> state" where
  "do_fetch le st url = (fetch le url, st\<lparr>fetched := fetched st @ [url]\<rparr>)"

definition loadCSVData :: "loader_env \<Rightarrow> state \<Rightarrow> state" where
  "loadCSVData le st0 =
     (let st1 = st0\<lparr>loading := True\<rparr>;
          csvUrl = (if (case VITE_GOOGLE_SHEET_ID le of
                          None \<Rightarrow> False | Some i \<Rightarrow> i \<noteq> [] \<and> trim i \<noteq> [])
                    then GOOGLE_SHEET_URL le else LOCAL_CSV_URL);
          (res, st2) = do_fetch le st1 csvUrl
      in case res of
           Rejected message \<Rightarrow> catch_err st2 message
         | Resolved response \<Rightarrow>
             if \<not> ok response then
               (if csvUrl = GOOGLE_SHEET_URL le then
                  (let (fallback, st3) = do_fetch le st2 LOCAL_CSV_URL
                   in case fallback of
                        Rejected message \<Rightarrow> catch_err st3 message
                      | Resolved fallbackResponse \<Rightarrow>
                          if \<not> ok fallbackResponse then
                            catch_err st3
                              ''Failed to load CSV file from both Google Sheets and local source. Check console for details.''
                          else
                            (case text_r fallbackResponse of
                               Inl message \<Rightarrow> catch_err st3 message
                             | Inr csvData \<Rightarrow> parseCSV le st3 csvData ''local file''))
                else
                  catch_err st2
                    (''Failed to load local CSV file: '' @ show_nat (status response)
                       @ '' '' @ statusText response))
             else
               (case text_r response of
                  Inl message \<Rightarrow> catch_err st2 message
                | Inr csvData \<Rightarrow>
                    parseCSV le st2 csvData
                      (if csvUrl = GOOGLE_SHEET_URL le then ''Google Sheets'' else ''local file'')))"

definition initial_state :: state where
  "initial_state = \<lparr> bloodSugarData = [], loading = True, error = None, fetched = [] \<rparr>"

section \<open>Properties of the normalized collection, and sample inputs\<close>

text \<open>\<^verbatim>\<open>a.date <= b.date\<close>: false as soon as one of the two dates is invalid.\<close>

definition date_le :: "int option \<Rightarrow> int option \<Rightarrow> bool" where
  "date_le a b = (case (a, b) of (Some ta, Some tb) \<Rightarrow> ta \<le> tb | _ \<Rightarrow> False)"

text \<open>Sorted non-decreasing by date: every reading is at most as late as each one after it.\<close>

definition sorted_by_date :: "reading list \<Rightarrow> bool" where
  "sorted_by_date rs = sorted_wrt (\<lambda>a b. date_le (date a) (date b)) rs"

text \<open>Stable: of two readings of one date, the one that came first in the input (the one of
  the smaller \<open>id\<close>) comes first.\<close>

definition stable_by_id :: "reading list \<Rightarrow> bool" where
  "stable_by_id rs = sorted_wrt (\<lambda>a b. date a = date b \<longrightarrow> id_r a < id_r b) rs"

text \<open>The order of date and input position, dates first; \<open>lex_after a b\<close> when \<open>a\<close> is
  after \<open>b\<close> in it. It is the invariant of the insertion sort on valid dates.\<close>

definition key_before :: "int option \<times> nat \<Rightarrow> int option \<times> nat \<Rightarrow> bool" where
  "key_before p q =
     (case (fst p, fst q) of
        (Some tp, Some tq) \<Rightarrow> tp < tq \<or> (tp = tq \<and> snd p < snd q)
      | _ \<Rightarrow> False)"

definition lex_after :: "reading \<Rightarrow> reading \<Rightarrow> bool" where
  "lex_after a b = key_before (date b, id_r b) (date a, id_r a)"

text \<open>A runtime in the UTC time zone, and one five hours behind it (New York in winter).
  Their \<open>parse_other\<close> takes no string for a date: it is consulted below on \<^verbatim>\<open>n/a\<close> alone,
  which no engine parses.\<close>

definition env_utc :: env where
  "env_utc = \<lparr> tza = (\<lambda>t. 0), parse_other = (\<lambda>s. None), float_to_string = (\<lambda>q. ''?'') \<rparr>"


text \<open>The three rows of the scenario of the specification.\<close>

definition scenario_first :: row where
  "scenario_first =
     [''date'' \<mapsto> JStr ''2024-01-01'', ''sugarLevel'' \<mapsto> JNum (Fin 95),
      ''type'' \<mapsto> JStr ''FASTING'']"

definition scenario_second :: row where
  "scenario_second =
     [''date'' \<mapsto> JStr ''2024-01-01'', ''sugarLevel'' \<mapsto> JNum (Fin 150),
      ''type'' \<mapsto> JStr ''RANDOM'', ''time'' \<mapsto> JStr ''14:00'']"

definition scenario_third :: row where
  "scenario_third =
     [''date'' \<mapsto> JStr ''2024-01-02'', ''sugarLevel'' \<mapsto> JNum (Fin 0),
      ''type'' \<mapsto> JStr ''FASTING'']"

definition scenario_rows :: "row list" where
  "scenario_rows = [scenario_first, scenario_second, scenario_third]"

text \<open>Rows out of date order, the second with a level that is no number.\<close>

definition rows_unordered :: "row list" where
  "rows_unordered =
     [[''date'' \<mapsto> JStr ''2024-01-03'', ''sugarLevel'' \<mapsto> JNum (Fin 95),
       ''type'' \<mapsto> JStr ''FASTING''],
      [''date'' \<mapsto> JStr ''2024-01-02'', ''sugarLevel'' \<mapsto> JStr ''n/a'',
       ''type'' \<mapsto> JStr ''RANDOM''],
      [''date'' \<mapsto> JStr ''2024-01-01'', ''sugarLevel'' \<mapsto> JStr ''150.5'',
       ''type'' \<mapsto> JStr ''RANDOM'']]"

text \<open>Rows of which the second has a date that does not parse.\<close>

definition rows_bad_date :: "row list" where
  "rows_bad_date =
     [[''date'' \<mapsto> JStr ''2024-01-02'', ''sugarLevel'' \<mapsto> JNum (Fin 95),
       ''type'' \<mapsto> JStr ''FASTING''],
      [''date'' \<mapsto> JStr ''n/a'', ''sugarLevel'' \<mapsto> JNum (Fin 120),
       ''type'' \<mapsto> JStr ''RANDOM''],
      [''date'' \<mapsto> JStr ''2024-01-01'', ''sugarLevel'' \<mapsto> JNum (Fin 110),
       ''type'' \<mapsto> JStr ''FASTING'']]"

text \<open>Rows of every kind of type: FASTING, none (which reads as UNKNOWN), RANDOM, and
  \<^verbatim>\<open>fasting\<close> in lower case.\<close>

definition rows_mixed :: "row list" where
  "rows_mixed =
     [[''date'' \<mapsto> JStr ''2024-01-01'', ''sugarLevel'' \<mapsto> JNum (Fin 95),
       ''type'' \<mapsto> JStr ''FASTING''],
      [''date'' \<mapsto> JStr ''2024-01-02'', ''sugarLevel'' \<mapsto> JNum (Fin 120)],
      [''date'' \<mapsto> JStr ''2024-01-03'', ''sugarLevel'' \<mapsto> JNum (Fin 150),
       ''type'' \<mapsto> JStr ''RANDOM''],
      [''date'' \<mapsto> JStr ''2024-01-04'', ''sugarLevel'' \<mapsto> JNum (Fin 100),
       ''type'' \<mapsto> JStr ''fasting'']]"

definition mixed_readings :: "reading list" where
  "mixed_readings = processedData env_utc rows_mixed"

section \<open>Properties of the statistics\<close>

text \<open>
  The arithmetic mean of the levels of a group. The levels of normalized readings are
  positive: finite, or \<open>+Infinity\<close> (the text \<^verbatim>\<open>Infinity\<close> parses to it), and the mean of a
  group with an infinite level is infinite.
\<close>

fun num_val :: "jsnum \<Rightarrow> rat" where
  "num_val (Fin q) = q"
| "num_val _ = 0"

definition arith_mean :: "jsnum list \<Rightarrow> jsnum" where
  "arith_mean xs =
     (if PosInf \<in> set xs then PosInf
      else Fin (sum_list (map num_val xs) / of_nat (length xs)))"



text \<open>
  What a group of the statistics reports over its members: on no member the text \<^verbatim>\<open>N/A\<close>
  for average, maximum and minimum, and the count 0; otherwise the mean of the levels
  rounded to one decimal place by \<^verbatim>\<open>toFixed(1)\<close>, the greatest and the least of the levels as
  they are, and the number of members.
\<close>

definition reports :: "env \<Rightarrow> reading list \<Rightarrow> group_stats \<Rightarrow> bool" where
  "reports e members g =
     (let levels = map sugarLevel members
      in if members = [] then
           avg g = JStr ''N/A'' \<and> max_r g = JStr ''N/A'' \<and> min_r g = JStr ''N/A'' \<and> count g = 0
         else
           avg g = JStr (toFixed e 1 (arith_mean levels))
           \<and> (\<exists>hi \<in> set levels. max_r g = JNum hi \<and> (\<forall>x \<in> set levels. js_le x hi))
           \<and> (\<exists>lo \<in> set levels. min_r g = JNum lo \<and> (\<forall>x \<in> set levels. js_le lo x))
           \<and> count g = length members)"



section \<open>Properties of the display labels, and sample inputs of the loader\<close>

text \<open>
  The occurrence number of the reading at position \<open>i\<close> among the readings of its day label,
  counted from 1 (on top of what \<^verbatim>\<open>dateCounts\<close> holds already), and the label that a reading
  gets at the occurrence \<open>k\<close>: the bare day label at the first one, and from the second on
  the day label followed by the time in parentheses if there is one, else by \<^verbatim>\<open>#\<close> and \<open>k\<close>.
\<close>

definition occurrence :: "(string \<rightharpoonup> nat) \<Rightarrow> reading list \<Rightarrow> nat \<Rightarrow> nat" where
  "occurrence dateCounts rs i =
     (case dateCounts (dateStr (rs ! i)) of None \<Rightarrow> 0 | Some c \<Rightarrow> c)
       + length (filter (\<lambda>r. dateStr r = dateStr (rs ! i)) (take (Suc i) rs))"

definition label_of :: "env \<Rightarrow> reading \<Rightarrow> nat \<Rightarrow> string" where
  "label_of e r k = (if 1 < k then dateStr r @ timeStr e r k else dateStr r)"

text \<open>Three readings of one day: of which the last two have the same time; and of which
  the first and the last have no time.\<close>

definition rows_same_time :: "row list" where
  "rows_same_time =
     [[''date'' \<mapsto> JStr ''2024-01-01'', ''sugarLevel'' \<mapsto> JNum (Fin 95),
       ''type'' \<mapsto> JStr ''FASTING'', ''time'' \<mapsto> JStr ''08:00''],
      [''date'' \<mapsto> JStr ''2024-01-01'', ''sugarLevel'' \<mapsto> JNum (Fin 150),
       ''type'' \<mapsto> JStr ''RANDOM'', ''time'' \<mapsto> JStr ''14:00''],
      [''date'' \<mapsto> JStr ''2024-01-01'', ''sugarLevel'' \<mapsto> JNum (Fin 160),
       ''type'' \<mapsto> JStr ''RANDOM'', ''time'' \<mapsto> JStr ''14:00'']]"

definition rows_one_day :: "row list" where
  "rows_one_day =
     [[''date'' \<mapsto> JStr ''2024-01-01'', ''sugarLevel'' \<mapsto> JNum (Fin 95)],
      [''date'' \<mapsto> JStr ''2024-01-01'', ''sugarLevel'' \<mapsto> JNum (Fin 150),
       ''time'' \<mapsto> JStr ''14:00''],
      [''date'' \<mapsto> JStr ''2024-01-01'', ''sugarLevel'' \<mapsto> JNum (Fin 160)]]"

text \<open>A sheet is configured, and every fetch is rejected (the browser's message for a
  network or CORS failure); and one where every fetch is answered 404.\<close>

definition env_rejecting :: loader_env where
  "env_rejecting =
     \<lparr> VITE_GOOGLE_SHEET_ID = Some ''sheet123'',
       fetch = (\<lambda>url. Rejected ''Failed to fetch''),
       Papa_parse = (\<lambda>csvData. Complete [] []) \<rparr>"

definition env_not_found :: loader_env where
  "env_not_found =
     \<lparr> VITE_GOOGLE_SHEET_ID = Some ''sheet123'',
       fetch = (\<lambda>url. Resolved \<lparr> ok = False, status = 404, statusText = ''Not Found'',
                                  text_r = Inr '''' \<rparr>),
       Papa_parse = (\<lambda>csvData. Complete [] []) \<rparr>"

section \<open>Facts about the runtime functions\<close>


subsection \<open>The sort and the label pass\<close>

lemma set_insert_left: "set (insert_left c x ys) = insert x (set ys)"
  by (induction ys) auto

lemma length_insert_left: "length (insert_left c x ys) = Suc (length ys)"
  by (induction ys) auto

lemma distinct_map_insert_left:
  "distinct (map f (insert_left c x ys)) = (f x \<notin> f ` set ys \<and> distinct (map f ys))"
  by (induction ys) (auto simp: set_insert_left)

lemma set_foldl_insert_left:
  "set (foldl (\<lambda>prefix x. insert_left c x prefix) acc xs) = set acc \<union> set xs"
  by (induction xs arbitrary: acc) (auto simp: set_insert_left)

lemma length_foldl_insert_left:
  "length (foldl (\<lambda>prefix x. insert_left c x prefix) acc xs) = length acc + length xs"
  by (induction xs arbitrary: acc) (auto simp: length_insert_left)

lemma distinct_foldl_insert_left:
  "distinct (map f (foldl (\<lambda>prefix x. insert_left c x prefix) acc xs)) = distinct (map f (acc @ xs))"
  by (induction xs arbitrary: acc) (auto simp: distinct_map_insert_left set_insert_left)

lemma set_Array_sort: "set (Array_sort c xs) = set xs"
  by (simp add: Array_sort_def set_foldl_insert_left)

lemma length_Array_sort: "length (Array_sort c xs) = length xs"
  by (simp add: Array_sort_def length_foldl_insert_left)

lemma distinct_map_Array_sort: "distinct (map f (Array_sort c xs)) = distinct (map f xs)"
  by (simp add: Array_sort_def distinct_foldl_insert_left rev_map [symmetric])

lemma add_labels_strip:
  "map (\<lambda>r. r\<lparr>displayDate := None\<rparr>) (add_labels e dc xs) = map (\<lambda>r. r\<lparr>displayDate := None\<rparr>) xs"
  by (induction xs arbitrary: dc) (simp_all add: Let_def)

lemma length_add_labels: "length (add_labels e dc xs) = length xs"
  by (induction xs arbitrary: dc) (simp_all add: Let_def)

lemma map_id_add_labels: "map id_r (add_labels e dc xs) = map id_r xs"
  by (induction xs arbitrary: dc) (simp_all add: Let_def)

lemma map_date_add_labels: "map date (add_labels e dc xs) = map date xs"
  by (induction xs arbitrary: dc) (simp_all add: Let_def)

lemma map_sugarLevel_add_labels: "map sugarLevel (add_labels e dc xs) = map sugarLevel xs"
  by (induction xs arbitrary: dc) (simp_all add: Let_def)

lemma map_type_add_labels: "map type_r (add_labels e dc xs) = map type_r xs"
  by (induction xs arbitrary: dc) (simp_all add: Let_def)

lemma length_mapped: "length (mapped e rows) = length rows"
  by (simp add: mapped_def)

lemma nth_mapped: "i < length rows \<Longrightarrow> mapped e rows ! i = make_item e (rows ! i) i"
  by (simp add: mapped_def)

lemma map_id_mapped: "map id_r (mapped e rows) = [0 ..< length rows]"
  by (rule nth_equalityI) (simp_all add: length_mapped nth_mapped make_item_def Let_def)

lemma processedData_eq: "processedData e rows = add_labels e Map.empty (processed e rows)"
  by (cases rows) (simp_all add: processedData_def processed_def mapped_def Array_sort_def)

lemma in_mapped_iff:
  "x \<in> set (mapped e rows) \<longleftrightarrow> (\<exists>i < length rows. x = make_item e (rows ! i) i)"
  by (auto simp: in_set_conv_nth length_mapped nth_mapped)

lemma strip_make_item: "(make_item e r i)\<lparr>displayDate := None\<rparr> = make_item e r i"
  by (simp add: make_item_def Let_def)

lemma strip_processedData:
  "(\<lambda>r. r\<lparr>displayDate := None\<rparr>) ` set (processedData e rows)
     = {make_item e (rows ! i) i | i. i < length rows \<and> valid_item (make_item e (rows ! i) i)}"
proof -
  have "(\<lambda>r. r\<lparr>displayDate := None\<rparr>) ` set (processedData e rows)
          = set (map (\<lambda>r. r\<lparr>displayDate := None\<rparr>) (processed e rows))"
    by (simp add: processedData_eq add_labels_strip flip: set_map)
  also have "\<dots> = (\<lambda>r. r\<lparr>displayDate := None\<rparr>) ` {x \<in> set (mapped e rows). valid_item x}"
    by (simp add: processed_def set_Array_sort)
  also have "\<dots> = {x \<in> set (mapped e rows). valid_item x}"
    by (force simp: in_mapped_iff strip_make_item)
  also have "\<dots> = {make_item e (rows ! i) i | i. i < length rows \<and> valid_item (make_item e (rows ! i) i)}"
    by (auto simp: in_mapped_iff)
  finally show ?thesis .
qed

lemma id_make_item: "id_r (make_item e r i) = i"
  by (simp add: make_item_def Let_def)

lemma processedData_origin:
  assumes "r \<in> set (processedData e rows)"
  shows "id_r r < length rows \<and> valid_item (make_item e (rows ! id_r r) (id_r r))
           \<and> r\<lparr>displayDate := None\<rparr> = make_item e (rows ! id_r r) (id_r r)"
proof -
  from assms have "r\<lparr>displayDate := None\<rparr> \<in> (\<lambda>r. r\<lparr>displayDate := None\<rparr>) ` set (processedData e rows)"
    by (rule imageI)
  then obtain i where i: "i < length rows" "valid_item (make_item e (rows ! i) i)"
      "r\<lparr>displayDate := None\<rparr> = make_item e (rows ! i) i"
    unfolding strip_processedData by blast
  from i(3) have "id_r (r\<lparr>displayDate := None\<rparr>) = i"
    by (simp add: id_make_item)
  then have "id_r r = i" by simp
  with i show ?thesis by simp
qed

lemma processedData_retains:
  assumes "i < length rows" and "valid_item (make_item e (rows ! i) i)"
  shows "\<exists>r \<in> set (processedData e rows). r\<lparr>displayDate := None\<rparr> = make_item e (rows ! i) i"
proof -
  from assms have "make_item e (rows ! i) i \<in> (\<lambda>r. r\<lparr>displayDate := None\<rparr>) ` set (processedData e rows)"
    unfolding strip_processedData by blast
  then show ?thesis by force
qed

lemma distinct_ids_processedData: "distinct (map id_r (processedData e rows))"
proof -
  have "distinct (map id_r (filter valid_item (mapped e rows)))"
    by (rule distinct_map_filter) (simp add: map_id_mapped)
  then show ?thesis
    by (simp add: processedData_eq map_id_add_labels processed_def distinct_map_Array_sort)
qed

lemma valid_make_item:
  "valid_item (make_item e r i) \<longleftrightarrow> js_gt (parseFloat e (row_get r ''sugarLevel'')) (Fin 0)"
  by (cases "parseFloat e (row_get r ''sugarLevel'')")
     (auto simp: valid_item_def make_item_def Let_def num_or_zero_def isNaN_def js_gt_def)

lemma not_gt_iff: "\<not> js_gt x (Fin 0) \<longleftrightarrow> x = NaN \<or> js_le x (Fin 0)"
  by (cases x) (auto simp: js_gt_def js_le_def)

subsection \<open>The sort on valid dates\<close>

lemma moves_left_iff:
  "date y = Some ty \<Longrightarrow> date x = Some tx \<Longrightarrow>
     js_gt (SortCompare by_date y x) (Fin 0) \<longleftrightarrow> tx < ty"
  by (simp add: SortCompare_def by_date_def date_minus_def js_gt_def Let_def)

lemma insert_left_lex:
  assumes "sorted_wrt lex_after ys" and "\<forall>y \<in> set ys. date y \<noteq> None \<and> id_r y < id_r x"
    and "date x \<noteq> None"
  shows "sorted_wrt lex_after (insert_left by_date x ys)"
  using assms
proof (induction ys)
  case Nil
  then show ?case by simp
next
  case (Cons y ys)
  from Cons.prems obtain tx ty where t: "date x = Some tx" "date y = Some ty"
    by auto
  show ?case
  proof (cases "tx < ty")
    case True
    then have "lex_after y x" by (simp add: lex_after_def key_before_def t)
    with Cons True show ?thesis
      by (auto simp: moves_left_iff [OF t(2) t(1)] set_insert_left)
  next
    case False
    have "lex_after x z" if "z \<in> set (y # ys)" for z
    proof -
      from that Cons.prems(2) obtain tz where tz: "date z = Some tz" "id_r z < id_r x"
        by auto
      from that Cons.prems(1) have "z = y \<or> lex_after y z" by auto
      then have "tz \<le> ty" using t tz by (auto simp: lex_after_def key_before_def)
      with False tz show ?thesis by (auto simp: lex_after_def key_before_def t)
    qed
    with Cons.prems(1) False show ?thesis
      by (simp add: moves_left_iff [OF t(2) t(1)])
  qed
qed

lemma foldl_insert_left_lex:
  assumes "sorted_wrt lex_after acc"
    and "\<forall>y \<in> set acc \<union> set xs. date y \<noteq> None"
    and "sorted_wrt (\<lambda>a b. id_r a < id_r b) xs"
    and "\<forall>a \<in> set acc. \<forall>x \<in> set xs. id_r a < id_r x"
  shows "sorted_wrt lex_after (foldl (\<lambda>prefix x. insert_left by_date x prefix) acc xs)"
  using assms
proof (induction xs arbitrary: acc)
  case Nil
  then show ?case by simp
next
  case (Cons x xs)
  have "sorted_wrt lex_after (insert_left by_date x acc)"
    using Cons.prems by (intro insert_left_lex) auto
  moreover have "\<forall>y \<in> set (insert_left by_date x acc) \<union> set xs. date y \<noteq> None"
    using Cons.prems(2) by (auto simp: set_insert_left)
  moreover have "sorted_wrt (\<lambda>a b. id_r a < id_r b) xs"
    using Cons.prems(3) by simp
  moreover have "\<forall>a \<in> set (insert_left by_date x acc). \<forall>z \<in> set xs. id_r a < id_r z"
    using Cons.prems(3,4) by (auto simp: set_insert_left)
  ultimately show ?case
    using Cons.IH [of "insert_left by_date x acc"] by simp
qed

lemma ids_increasing_filtered:
  "sorted_wrt (\<lambda>a b. id_r a < id_r b) (filter valid_item (mapped e rows))"
proof -
  have "sorted_wrt (<) (map id_r (mapped e rows))"
    by (simp add: map_id_mapped)
  then have "sorted_wrt (\<lambda>a b. id_r a < id_r b) (mapped e rows)"
    by (simp add: sorted_wrt_map)
  then show ?thesis by (rule sorted_wrt_filter)
qed

lemma processed_lex:
  assumes "\<forall>r \<in> set (processed e rows). date r \<noteq> None"
  shows "sorted_wrt (\<lambda>a b. lex_after b a) (processed e rows)"
proof -
  let ?xs = "filter valid_item (mapped e rows)"
  from assms have "\<forall>y \<in> set [] \<union> set ?xs. date y \<noteq> None"
    by (simp add: processed_def set_Array_sort)
  then have "sorted_wrt lex_after (foldl (\<lambda>prefix x. insert_left by_date x prefix) [] ?xs)"
    by (intro foldl_insert_left_lex ids_increasing_filtered) simp_all
  then show ?thesis
    by (simp add: processed_def Array_sort_def sorted_wrt_rev)
qed

lemma labels_keep_date_id:
  "map (\<lambda>r. (date r, id_r r)) (add_labels e dc xs) = map (\<lambda>r. (date r, id_r r)) xs"
  by (induction xs arbitrary: dc) (simp_all add: Let_def)

lemma processedData_lex:
  assumes "\<forall>r \<in> set (processedData e rows). date r \<noteq> None"
  shows "sorted_wrt (\<lambda>a b. lex_after b a) (processedData e rows)"
proof -
  have "map date (processedData e rows) = map date (processed e rows)"
    by (simp add: processedData_eq map_date_add_labels)
  then have "date ` set (processedData e rows) = date ` set (processed e rows)"
    by (simp flip: set_map)
  with assms have "\<forall>r \<in> set (processed e rows). date r \<noteq> None"
    by (metis imageE imageI)
  then have "sorted_wrt (\<lambda>a b. lex_after b a) (processed e rows)"
    by (rule processed_lex)
  then have "sorted_wrt key_before (map (\<lambda>r. (date r, id_r r)) (processed e rows))"
    by (simp add: sorted_wrt_map lex_after_def)
  then have "sorted_wrt key_before (map (\<lambda>r. (date r, id_r r)) (processedData e rows))"
    by (simp add: processedData_eq labels_keep_date_id)
  then show ?thesis
    by (simp add: sorted_wrt_map lex_after_def)
qed

subsection \<open>Levels, sums and extrema\<close>

lemma valid_processedData:
  assumes "r \<in> set (processedData e rows)"
  shows "valid_item r"
proof -
  from assms have v: "valid_item (make_item e (rows ! id_r r) (id_r r))"
    and eq: "r\<lparr>displayDate := None\<rparr> = make_item e (rows ! id_r r) (id_r r)"
    using processedData_origin by blast+
  from eq have "sugarLevel (r\<lparr>displayDate := None\<rparr>) = sugarLevel (make_item e (rows ! id_r r) (id_r r))"
    by simp
  then have "sugarLevel (make_item e (rows ! id_r r) (id_r r)) = sugarLevel r" by simp
  with v show ?thesis by (simp add: valid_item_def)
qed

lemma positive_cases: "js_gt x (Fin 0) \<Longrightarrow> x = PosInf \<or> (\<exists>q. x = Fin q \<and> 0 < q)"
  by (cases x) (auto simp: js_gt_def)

lemma foldl_add_PosInf:
  "\<forall>x \<in> set xs. js_gt x (Fin 0) \<Longrightarrow> foldl js_add PosInf xs = PosInf"
  by (induction xs) (auto dest!: positive_cases)

lemma foldl_add_positive:
  "\<forall>x \<in> set xs. js_gt x (Fin 0) \<Longrightarrow>
     foldl js_add (Fin a) xs
       = (if PosInf \<in> set xs then PosInf else Fin (a + sum_list (map num_val xs)))"
proof (induction xs arbitrary: a)
  case Nil
  then show ?case by simp
next
  case (Cons x xs)
  from Cons.prems have "x = PosInf \<or> (\<exists>q. x = Fin q \<and> 0 < q)"
    by (simp add: positive_cases)
  then show ?case
  proof
    assume "x = PosInf"
    with Cons.prems show ?thesis by (simp add: foldl_add_PosInf)
  next
    assume "\<exists>q. x = Fin q \<and> 0 < q"
    then obtain q where "x = Fin q" by blast
    with Cons show ?thesis by (simp add: add.assoc)
  qed
qed

lemma avg_arr_positive:
  assumes "\<forall>x \<in> set xs. js_gt x (Fin 0)" and "xs \<noteq> []"
  shows "avg_arr xs = arith_mean xs"
  using assms by (simp add: avg_arr_def arith_mean_def foldl_add_positive)

lemma js_le_refl: "x \<noteq> NaN \<Longrightarrow> js_le x x"
  by (cases x) (simp_all add: js_le_def)

lemma js_le_trans: "js_le x y \<Longrightarrow> js_le y z \<Longrightarrow> js_le x z"
  by (cases x; cases y; cases z) (simp_all add: js_le_def)

lemma js_max2_cases:
  "a \<noteq> NaN \<Longrightarrow> b \<noteq> NaN \<Longrightarrow>
     (js_max2 a b = a \<or> js_max2 a b = b) \<and> js_le a (js_max2 a b) \<and> js_le b (js_max2 a b)"
  by (cases a; cases b) (simp_all add: js_max2_def js_le_def)

lemma js_min2_cases:
  "a \<noteq> NaN \<Longrightarrow> b \<noteq> NaN \<Longrightarrow>
     (js_min2 a b = a \<or> js_min2 a b = b) \<and> js_le (js_min2 a b) a \<and> js_le (js_min2 a b) b"
  by (cases a; cases b) (simp_all add: js_min2_def js_le_def)

lemma foldl_max2:
  assumes "a \<noteq> NaN" and "\<forall>x \<in> set xs. x \<noteq> NaN"
  shows "foldl js_max2 a xs \<in> insert a (set xs)
           \<and> (\<forall>x \<in> insert a (set xs). js_le x (foldl js_max2 a xs))"
  using assms
proof (induction xs arbitrary: a)
  case Nil
  then show ?case by (simp add: js_le_refl)
next
  case (Cons x xs)
  let ?m = "js_max2 a x"
  from Cons.prems have m: "(?m = a \<or> ?m = x) \<and> js_le a ?m \<and> js_le x ?m"
    by (simp add: js_max2_cases)
  then have "?m \<noteq> NaN" using Cons.prems by auto
  with Cons have IH: "foldl js_max2 ?m xs \<in> insert ?m (set xs)
           \<and> (\<forall>y \<in> insert ?m (set xs). js_le y (foldl js_max2 ?m xs))"
    by simp
  then have "js_le ?m (foldl js_max2 ?m xs)" by simp
  with m have "js_le a (foldl js_max2 ?m xs)" "js_le x (foldl js_max2 ?m xs)"
    by (blast intro: js_le_trans)+
  with IH m show ?case by auto
qed

lemma foldl_min2:
  assumes "a \<noteq> NaN" and "\<forall>x \<in> set xs. x \<noteq> NaN"
  shows "foldl js_min2 a xs \<in> insert a (set xs)
           \<and> (\<forall>x \<in> insert a (set xs). js_le (foldl js_min2 a xs) x)"
  using assms
proof (induction xs arbitrary: a)
  case Nil
  then show ?case by (simp add: js_le_refl)
next
  case (Cons x xs)
  let ?m = "js_min2 a x"
  from Cons.prems have m: "(?m = a \<or> ?m = x) \<and> js_le ?m a \<and> js_le ?m x"
    by (simp add: js_min2_cases)
  then have "?m \<noteq> NaN" using Cons.prems by auto
  with Cons have IH: "foldl js_min2 ?m xs \<in> insert ?m (set xs)
           \<and> (\<forall>y \<in> insert ?m (set xs). js_le (foldl js_min2 ?m xs) y)"
    by simp
  then have "js_le (foldl js_min2 ?m xs) ?m" by simp
  with m have "js_le (foldl js_min2 ?m xs) a" "js_le (foldl js_min2 ?m xs) x"
    by (blast intro: js_le_trans)+
  with IH m show ?case by auto
qed

lemma Math_max_positive:
  assumes "\<forall>x \<in> set xs. js_gt x (Fin 0)" and "xs \<noteq> []"
  shows "Math_max xs \<in> set xs \<and> (\<forall>x \<in> set xs. js_le x (Math_max xs))"
proof -
  from assms(1) have nn: "\<forall>x \<in> set xs. x \<noteq> NaN" by (auto simp: js_gt_def)
  then have m: "Math_max xs \<in> insert NegInf (set xs)"
    "\<forall>x \<in> insert NegInf (set xs). js_le x (Math_max xs)"
    using foldl_max2 [of NegInf xs] by (simp_all add: Math_max_def)
  from assms(2) obtain x where x: "x \<in> set xs" by (cases xs) auto
  with assms(1) m(2) have "js_gt x (Fin 0)" "js_le x (Math_max xs)" by auto
  then have "Math_max xs \<noteq> NegInf"
    by (cases x) (auto simp: js_gt_def js_le_def)
  with m show ?thesis by auto
qed

lemma Math_min_positive:
  assumes "\<forall>x \<in> set xs. js_gt x (Fin 0)" and "xs \<noteq> []"
  shows "Math_min xs \<in> set xs \<and> (\<forall>x \<in> set xs. js_le (Math_min xs) x)"
proof -
  from assms(1) have nn: "\<forall>x \<in> set xs. x \<noteq> NaN" by (auto simp: js_gt_def)
  then have m: "Math_min xs \<in> insert PosInf (set xs)"
    "\<forall>x \<in> insert PosInf (set xs). js_le (Math_min xs) x"
    using foldl_min2 [of PosInf xs] by (simp_all add: Math_min_def)
  show ?thesis
  proof (cases "Math_min xs = PosInf")
    case True
    from assms(2) obtain x where x: "x \<in> set xs" by (cases xs) auto
    with m(2) True have "js_le PosInf x" by auto
    then have "x = PosInf" by (cases x) (simp_all add: js_le_def)
    with x True m(2) show ?thesis by auto
  next
    case False
    with m show ?thesis by auto
  qed
qed

subsection \<open>\<open>toFixed\<close> with one digit\<close>




subsection \<open>The groups of \<open>stats\<close>\<close>

lemma group_reports:
  assumes "\<forall>r \<in> set ms. valid_item r" and "ms \<noteq> []"
  shows "reports e ms
           \<lparr> avg = JStr (toFixed e 1 (avg_arr (map sugarLevel ms))),
             max_r = JNum (Math_max (map sugarLevel ms)),
             min_r = JNum (Math_min (map sugarLevel ms)),
             count = length (map sugarLevel ms) \<rparr>"
proof -
  let ?ls = "map sugarLevel ms"
  from assms have pos: "\<forall>x \<in> set ?ls. js_gt x (Fin 0)" and ne: "?ls \<noteq> []"
    by (auto simp: valid_item_def)
  note avg_arr_positive [OF pos ne] Math_max_positive [OF pos ne] Math_min_positive [OF pos ne]
  with assms(2) show ?thesis
    by (simp add: reports_def)
qed

lemma empty_reports: "reports e [] not_available"
  by (simp add: reports_def not_available_def)

lemma stats_overall:
  "pd \<noteq> [] \<Longrightarrow>
     overall (stats e pd fd rd)
       = \<lparr> avg = JStr (toFixed e 1 (avg_arr (map sugarLevel pd))),
           max_r = JNum (Math_max (map sugarLevel pd)),
           min_r = JNum (Math_min (map sugarLevel pd)),
           count = length (map sugarLevel pd) \<rparr>"
  by (simp add: stats_def Let_def)

lemma stats_fasting:
  "pd \<noteq> [] \<Longrightarrow> fd \<noteq> [] \<Longrightarrow>
     fasting (stats e pd fd rd)
       = \<lparr> avg = JStr (toFixed e 1 (avg_arr (map sugarLevel fd))),
           max_r = JNum (Math_max (map sugarLevel fd)),
           min_r = JNum (Math_min (map sugarLevel fd)),
           count = length (map sugarLevel fd) \<rparr>"
  "fasting (stats e pd [] rd) = not_available"
  by (simp_all add: stats_def Let_def not_available_def)

lemma stats_random:
  "pd \<noteq> [] \<Longrightarrow> rd \<noteq> [] \<Longrightarrow>
     random (stats e pd fd rd)
       = \<lparr> avg = JStr (toFixed e 1 (avg_arr (map sugarLevel rd))),
           max_r = JNum (Math_max (map sugarLevel rd)),
           min_r = JNum (Math_min (map sugarLevel rd)),
           count = length (map sugarLevel rd) \<rparr>"
  "random (stats e pd fd []) = not_available"
  by (simp_all add: stats_def Let_def not_available_def)

lemma stats_empty:
  "stats e [] fd rd = \<lparr> overall = not_available, fasting = not_available, random = not_available \<rparr>"
  by (simp add: stats_def)

lemma stats_reports:
  assumes "\<forall>r \<in> set pd. valid_item r"
  shows "reports e pd (overall (stats e pd (fastingData pd) (randomData pd)))"
    and "reports e (fastingData pd) (fasting (stats e pd (fastingData pd) (randomData pd)))"
    and "reports e (randomData pd) (random (stats e pd (fastingData pd) (randomData pd)))"
proof -
  show "reports e pd (overall (stats e pd (fastingData pd) (randomData pd)))"
  proof (cases "pd = []")
    case True
    then show ?thesis by (simp add: stats_empty empty_reports)
  next
    case False
    show ?thesis
      unfolding stats_overall [OF False] by (rule group_reports [OF assms False])
  qed
  have f: "\<forall>r \<in> set (fastingData pd). valid_item r"
    using assms by (simp add: fastingData_def)
  show "reports e (fastingData pd) (fasting (stats e pd (fastingData pd) (randomData pd)))"
  proof (cases "fastingData pd = []")
    case True
    then show ?thesis by (simp add: stats_fasting(2) empty_reports)
  next
    case False
    then have "pd \<noteq> []" by (auto simp: fastingData_def)
    note eq = stats_fasting(1) [OF this False]
    show ?thesis
      unfolding eq by (rule group_reports [OF f False])
  qed
  have r: "\<forall>r \<in> set (randomData pd). valid_item r"
    using assms by (simp add: randomData_def)
  show "reports e (randomData pd) (random (stats e pd (fastingData pd) (randomData pd)))"
  proof (cases "randomData pd = []")
    case True
    then show ?thesis by (simp add: stats_random(2) empty_reports)
  next
    case False
    then have "pd \<noteq> []" by (auto simp: randomData_def)
    note eq = stats_random(1) [OF this False]
    show ?thesis
      unfolding eq by (rule group_reports [OF r False])
  qed
qed

lemma stats_counts:
  "count (overall (stats e pd (fastingData pd) (randomData pd))) = length pd"
  "count (fasting (stats e pd (fastingData pd) (randomData pd))) = length (fastingData pd)"
  "count (random (stats e pd (fastingData pd) (randomData pd))) = length (randomData pd)"
  by (simp_all add: stats_def Let_def not_available_def fastingData_def randomData_def)

lemma dashboard_reports:
  "reports e (processedData e rows) (overall (dashboard_stats e rows))"
  "reports e (fastingData (processedData e rows)) (fasting (dashboard_stats e rows))"
  "reports e (randomData (processedData e rows)) (random (dashboard_stats e rows))"
proof -
  have v: "\<forall>r \<in> set (processedData e rows). valid_item r"
    by (simp add: valid_processedData)
  show "reports e (processedData e rows) (overall (dashboard_stats e rows))"
    "reports e (fastingData (processedData e rows)) (fasting (dashboard_stats e rows))"
    "reports e (randomData (processedData e rows)) (random (dashboard_stats e rows))"
    unfolding dashboard_stats_def Let_def by (rule stats_reports [OF v])+
qed

lemma length_two_filters:
  assumes "\<And>x. \<not> (P x \<and> Q x)"
  shows "length (filter P xs) + length (filter Q xs) = length (filter (\<lambda>x. P x \<or> Q x) xs)"
  using assms by (induction xs) auto

lemma length_filter_all: "length (filter P xs) = length xs \<longleftrightarrow> (\<forall>x \<in> set xs. P x)"
proof (induction xs)
  case Nil
  then show ?case by simp
next
  case (Cons x xs)
  have "length (filter P xs) \<noteq> Suc (length xs)"
    using length_filter_le [of P xs] by linarith
  with Cons show ?case by auto
qed

subsection \<open>The scenario, in any runtime\<close>














subsection \<open>The display labels\<close>

lemma occurrence_0:
  "occurrence dc (x # rest) 0 = (case dc (dateStr x) of None \<Rightarrow> 0 | Some c \<Rightarrow> c) + 1"
  by (simp add: occurrence_def)

lemma occurrence_Suc:
  "occurrence dc (x # rest) (Suc j)
     = occurrence (dc(dateStr x \<mapsto> (case dc (dateStr x) of None \<Rightarrow> 0 | Some c \<Rightarrow> c) + 1)) rest j"
  by (simp add: occurrence_def)

lemma add_labels_nth:
  "i < length rs \<Longrightarrow>
     displayDate (add_labels e dc rs ! i) = Some (label_of e (rs ! i) (occurrence dc rs i))"
proof (induction rs arbitrary: dc i)
  case Nil
  then show ?case by simp
next
  case (Cons x rest)
  show ?case
  proof (cases i)
    case 0
    then show ?thesis
      by (simp add: occurrence_0 label_of_def Let_def)
  next
    case (Suc j)
    with Cons.prems have "j < length rest" by simp
    from Cons.IH [OF this] Suc show ?thesis
      by (simp add: occurrence_Suc Let_def fun_upd_def)
  qed
qed

lemma map_dateStr_add_labels: "map dateStr (add_labels e dc xs) = map dateStr xs"
  by (induction xs arbitrary: dc) (simp_all add: Let_def)

lemma label_of_reading:
  assumes "i < length (processedData e rows)"
  shows "displayDate (processedData e rows ! i)
           = Some (label_of e (processed e rows ! i) (occurrence Map.empty (processed e rows) i))"
    and "occurrence Map.empty (processed e rows) i
           = length (filter (\<lambda>r. dateStr r = dateStr (processedData e rows ! i))
               (take (Suc i) (processedData e rows)))"
proof -
  from assms have i: "i < length (processed e rows)"
    by (simp add: processedData_eq length_add_labels)
  then show "displayDate (processedData e rows ! i)
           = Some (label_of e (processed e rows ! i) (occurrence Map.empty (processed e rows) i))"
    by (simp add: processedData_eq add_labels_nth)
  have m: "map dateStr (processedData e rows) = map dateStr (processed e rows)"
    by (simp add: processedData_eq map_dateStr_add_labels)
  have "dateStr (processedData e rows ! i) = dateStr (processed e rows ! i)"
    using assms i nth_map [of i "processedData e rows" dateStr] nth_map [of i "processed e rows" dateStr]
    by (simp add: m)
  moreover have "length (filter (\<lambda>r. dateStr r = d) (take (Suc i) (processedData e rows)))
      = length (filter (\<lambda>r. dateStr r = d) (take (Suc i) (processed e rows)))" for d
  proof -
    have "length (filter (\<lambda>r. dateStr r = d) (take (Suc i) xs))
            = length (filter (\<lambda>s. s = d) (take (Suc i) (map dateStr xs)))" for xs :: "reading list"
      by (simp add: take_map filter_map comp_def)
    then show ?thesis by (simp only: m)
  qed
  ultimately show "occurrence Map.empty (processed e rows) i
           = length (filter (\<lambda>r. dateStr r = dateStr (processedData e rows ! i))
               (take (Suc i) (processedData e rows)))"
    by (simp add: occurrence_def)
qed

lemma labels_of_one_day:
  "map displayDate (processedData env_utc rows_one_day)
     = [Some ''Jan 1'', Some ''Jan 1 (14:00)'', Some ''Jan 1 #3'']"
  by code_simp

subsection \<open>The loader\<close>

lemma configured_url:
  assumes "VITE_GOOGLE_SHEET_ID le = Some i" and "trim i \<noteq> []"
  shows "i \<noteq> [] \<and> GOOGLE_SHEET_URL le \<noteq> LOCAL_CSV_URL"
proof -
  from assms(2) have "i \<noteq> []" by (auto simp: trim_def)
  moreover have "GOOGLE_SHEET_URL le \<noteq> LOCAL_CSV_URL"
    by (simp add: GOOGLE_SHEET_URL_def LOCAL_CSV_URL_def)
  ultimately show ?thesis ..
qed

lemma rejected_remote_in_general:
  assumes "VITE_GOOGLE_SHEET_ID le = Some i" and "trim i \<noteq> []"
    and "fetch le (GOOGLE_SHEET_URL le) = Rejected message"
  shows "error (loadCSVData le st) = Some (''Error loading CSV file: '' @ message)"
    and "fetched (loadCSVData le st) = fetched st @ [GOOGLE_SHEET_URL le]"
  using assms configured_url [OF assms(1,2)]
  by (simp_all add: loadCSVData_def do_fetch_def catch_err_def Let_def)

lemma http_error_remote_in_general:
  assumes "VITE_GOOGLE_SHEET_ID le = Some i" and "trim i \<noteq> []"
    and "fetch le (GOOGLE_SHEET_URL le) = Resolved r" and "\<not> ok r"
  shows "fetched (loadCSVData le st) = fetched st @ [GOOGLE_SHEET_URL le, LOCAL_CSV_URL]"
  using assms configured_url [OF assms(1,2)]
  by (simp add: loadCSVData_def do_fetch_def catch_err_def parseCSV_def Let_def
      split: fetch_result.splits sum.splits parse_result.splits)

lemma http_error_falls_back:
  "error (loadCSVData env_not_found initial_state)
     = Some ''Error loading CSV file: Failed to load CSV file from both Google Sheets and local source. Check console for details.''
   \<and> fetched (loadCSVData env_not_found initial_state)
       = [''https://docs.google.com/spreadsheets/d/sheet123/export?format=csv&gid=0'',
          ''/data/bloodsugar-data.csv'']"
  by code_simp

section \<open>The claims about the normalizer\<close>

text \<open>
  Claim C5. A raw record whose \<open>sugarLevel\<close> does not parse as a number (\<^verbatim>\<open>parseFloat\<close> gives
  NaN) or parses to a value at most 0 is excluded by the normalizer: no reading of the
  normalized collection carries its position as \<open>id\<close>. Every reading of the normalized
  collection has a \<open>sugarLevel\<close> greater than 0 that is not NaN.
\<close>

theorem invalid_sugar_excluded:
  "(\<forall>i < length rows.
      parseFloat e (row_get (rows ! i) ''sugarLevel'') = NaN
        \<or> js_le (parseFloat e (row_get (rows ! i) ''sugarLevel'')) (Fin 0)
      \<longrightarrow> i \<notin> id_r ` set (processedData e rows))
   \<and> (\<forall>r \<in> set (processedData e rows). js_gt (sugarLevel r) (Fin 0) \<and> \<not> isNaN (sugarLevel r))"
proof (intro conjI allI impI ballI)
  fix i
  assume "i < length rows"
    and bad: "parseFloat e (row_get (rows ! i) ''sugarLevel'') = NaN
        \<or> js_le (parseFloat e (row_get (rows ! i) ''sugarLevel'')) (Fin 0)"
  show "i \<notin> id_r ` set (processedData e rows)"
  proof
    assume "i \<in> id_r ` set (processedData e rows)"
    then obtain r where "r \<in> set (processedData e rows)" "id_r r = i" by auto
    then have "valid_item (make_item e (rows ! i) i)"
      using processedData_origin by blast
    then have "js_gt (parseFloat e (row_get (rows ! i) ''sugarLevel'')) (Fin 0)"
      by (simp add: valid_make_item)
    with bad show False by (simp add: not_gt_iff [symmetric])
  qed
next
  fix r
  assume "r \<in> set (processedData e rows)"
  then have v: "valid_item (make_item e (rows ! id_r r) (id_r r))"
    and eq: "r\<lparr>displayDate := None\<rparr> = make_item e (rows ! id_r r) (id_r r)"
    using processedData_origin by blast+
  from eq have "sugarLevel (r\<lparr>displayDate := None\<rparr>) = sugarLevel (make_item e (rows ! id_r r) (id_r r))"
    by simp
  then have "sugarLevel (make_item e (rows ! id_r r) (id_r r)) = sugarLevel r" by simp
  with v have "valid_item r" by (simp add: valid_item_def)
  then show "js_gt (sugarLevel r) (Fin 0)" and "\<not> isNaN (sugarLevel r)"
    by (simp_all add: valid_item_def)
qed

text \<open>On the sample rows: the second of \<open>rows_unordered\<close> has the level \<^verbatim>\<open>n/a\<close>, the third of
  the scenario has the level 0, and neither is in the normalized collection.\<close>

theorem invalid_sugar_excluded_witness:
  "parseFloat env_utc (row_get (rows_unordered ! 1) ''sugarLevel'') = NaN
   \<and> 1 \<notin> id_r ` set (processedData env_utc rows_unordered)
   \<and> js_le (parseFloat env_utc (row_get (scenario_rows ! 2) ''sugarLevel'')) (Fin 0)
   \<and> 2 \<notin> id_r ` set (processedData env_utc scenario_rows)
   \<and> js_gt (sugarLevel (processedData env_utc rows_unordered ! 0)) (Fin 0)
   \<and> \<not> isNaN (sugarLevel (processedData env_utc rows_unordered ! 0))"
proof -
  have a: "1 < length rows_unordered" "2 < length scenario_rows"
    by (simp_all add: rows_unordered_def scenario_rows_def)
  have b: "parseFloat env_utc (row_get (rows_unordered ! 1) ''sugarLevel'') = NaN"
    by code_simp
  have c: "js_le (parseFloat env_utc (row_get (scenario_rows ! 2) ''sugarLevel'')) (Fin 0)"
    by code_simp
  have d: "processedData env_utc rows_unordered ! 0 \<in> set (processedData env_utc rows_unordered)"
    by code_simp
  from invalid_sugar_excluded [of rows_unordered env_utc]
    invalid_sugar_excluded [of scenario_rows env_utc] a b c d
  show ?thesis by blast
qed

text \<open>
  Claim C8. The normalizer does not filter on the validity of the date: a raw record whose
  date does not parse and whose \<open>sugarLevel\<close> parses to a positive number is in the
  normalized collection, with an invalid date. The rows that are kept are exactly those
  whose \<open>sugarLevel\<close> parses to a positive number.
\<close>

theorem invalid_date_retained:
  "(\<forall>i < length rows.
      new_Date e (row_get (rows ! i) ''date'') = None
        \<and> js_gt (parseFloat e (row_get (rows ! i) ''sugarLevel'')) (Fin 0)
      \<longrightarrow> (\<exists>r \<in> set (processedData e rows). id_r r = i \<and> date r = None))
   \<and> id_r ` set (processedData e rows)
       = {i. i < length rows \<and> js_gt (parseFloat e (row_get (rows ! i) ''sugarLevel'')) (Fin 0)}"
proof (intro conjI allI impI)
  fix i
  assume i: "i < length rows"
    and h: "new_Date e (row_get (rows ! i) ''date'') = None
        \<and> js_gt (parseFloat e (row_get (rows ! i) ''sugarLevel'')) (Fin 0)"
  then have "valid_item (make_item e (rows ! i) i)"
    by (simp add: valid_make_item)
  with i obtain r where r: "r \<in> set (processedData e rows)"
      "r\<lparr>displayDate := None\<rparr> = make_item e (rows ! i) i"
    using processedData_retains by blast
  from r(2) have "id_r (r\<lparr>displayDate := None\<rparr>) = i" "date (r\<lparr>displayDate := None\<rparr>) = None"
    using h by (simp_all add: make_item_def Let_def)
  then have "id_r r = i \<and> date r = None" by simp
  with r(1) show "\<exists>r \<in> set (processedData e rows). id_r r = i \<and> date r = None" by blast
next
  show "id_r ` set (processedData e rows)
       = {i. i < length rows \<and> js_gt (parseFloat e (row_get (rows ! i) ''sugarLevel'')) (Fin 0)}"
  proof (intro set_eqI iffI)
    fix i
    assume "i \<in> id_r ` set (processedData e rows)"
    then obtain r where "r \<in> set (processedData e rows)" "id_r r = i" by auto
    then have "i < length rows \<and> valid_item (make_item e (rows ! i) i)"
      using processedData_origin by blast
    then show "i \<in> {i. i < length rows \<and> js_gt (parseFloat e (row_get (rows ! i) ''sugarLevel'')) (Fin 0)}"
      by (simp add: valid_make_item)
  next
    fix i
    assume "i \<in> {i. i < length rows \<and> js_gt (parseFloat e (row_get (rows ! i) ''sugarLevel'')) (Fin 0)}"
    then have i: "i < length rows" "valid_item (make_item e (rows ! i) i)"
      by (simp_all add: valid_make_item)
    then obtain r where r: "r \<in> set (processedData e rows)"
        "r\<lparr>displayDate := None\<rparr> = make_item e (rows ! i) i"
      using processedData_retains by blast
    from r(2) have "id_r (r\<lparr>displayDate := None\<rparr>) = i"
      by (simp add: id_make_item)
    then have "id_r r = i" by simp
    with r(1) show "i \<in> id_r ` set (processedData e rows)" by force
  qed
qed

theorem invalid_date_retained_witness:
  "new_Date env_utc (row_get (rows_bad_date ! 1) ''date'') = None
   \<and> js_gt (parseFloat env_utc (row_get (rows_bad_date ! 1) ''sugarLevel'')) (Fin 0)
   \<and> (\<exists>r. r \<in> set (processedData env_utc rows_bad_date) \<and> id_r r = 1 \<and> date r = None)"
proof -
  have a: "1 < length rows_bad_date"
    by (simp add: rows_bad_date_def)
  have b: "new_Date env_utc (row_get (rows_bad_date ! 1) ''date'') = None"
    by code_simp
  have c: "js_gt (parseFloat env_utc (row_get (rows_bad_date ! 1) ''sugarLevel'')) (Fin 0)"
    by code_simp
  from invalid_date_retained [of rows_bad_date env_utc] a b c
  show ?thesis by blast
qed

text \<open>
  Claim C9. The \<open>id\<close> of a normalized reading is the 0-based position of its row in the raw
  input: the ids are given in input order before the filter and the sort, every reading of
  the normalized collection is the item made of the row at position \<open>id\<close>, and no two
  readings share an id. The ids of the normalized collection may skip positions and be out
  of order: on \<open>rows_unordered\<close> they are 2, 0.
\<close>

theorem id_is_input_position:
  "map id_r (mapped e rows) = [0 ..< length rows]
   \<and> (\<forall>r \<in> set (processedData e rows).
         id_r r < length rows
         \<and> r\<lparr>displayDate := None\<rparr> = make_item e (rows ! id_r r) (id_r r))
   \<and> distinct (map id_r (processedData e rows))
   \<and> map id_r (processedData env_utc rows_unordered) = [2, 0]"
proof (intro conjI ballI)
  show "map id_r (mapped e rows) = [0 ..< length rows]"
    by (rule map_id_mapped)
  show "distinct (map id_r (processedData e rows))"
    by (rule distinct_ids_processedData)
  show "map id_r (processedData env_utc rows_unordered) = [2, 0]"
    by code_simp
next
  fix r
  assume "r \<in> set (processedData e rows)"
  then show "id_r r < length rows" 
    and "r\<lparr>displayDate := None\<rparr> = make_item e (rows ! id_r r) (id_r r)"
    using processedData_origin by blast+
qed

theorem id_is_input_position_witness:
  "id_r (processedData env_utc rows_unordered ! 0) = 2
   \<and> (processedData env_utc rows_unordered ! 0)\<lparr>displayDate := None\<rparr>
       = make_item env_utc (rows_unordered ! 2) 2
   \<and> sugarLevel (processedData env_utc rows_unordered ! 0) = Fin (301 / 2)"
proof -
  have a: "processedData env_utc rows_unordered ! 0 \<in> set (processedData env_utc rows_unordered)"
    by code_simp
  have b: "id_r (processedData env_utc rows_unordered ! 0) = 2"
    by code_simp
  have c: "sugarLevel (processedData env_utc rows_unordered ! 0) = Fin (301 / 2)"
    by code_simp
  from id_is_input_position [of env_utc rows_unordered] a
  have "(processedData env_utc rows_unordered ! 0)\<lparr>displayDate := None\<rparr>
       = make_item env_utc (rows_unordered ! id_r (processedData env_utc rows_unordered ! 0))
           (id_r (processedData env_utc rows_unordered ! 0))"
    by blast
  with b c show ?thesis by simp
qed

text \<open>
  Claim C3, as the code has it. When every reading of the normalized collection has a valid
  date, the collection is sorted non-decreasing by date, and readings of equal dates keep
  the order of their rows in the input.
\<close>

theorem sorted_stable_when_dates_valid:
  assumes "\<forall>r \<in> set (processedData e rows). date r \<noteq> None"
  shows "sorted_by_date (processedData e rows) \<and> stable_by_id (processedData e rows)"
proof -
  have lex: "sorted_wrt (\<lambda>a b. lex_after b a) (processedData e rows)"
    using assms by (rule processedData_lex)
  have "sorted_by_date (processedData e rows)"
    unfolding sorted_by_date_def
    by (rule sorted_wrt_mono_rel [OF _ lex])
       (auto simp: lex_after_def key_before_def date_le_def split: option.splits)
  moreover have "stable_by_id (processedData e rows)"
    unfolding stable_by_id_def
    by (rule sorted_wrt_mono_rel [OF _ lex])
       (auto simp: lex_after_def key_before_def split: option.splits)
  ultimately show ?thesis ..
qed

theorem sorted_stable_when_dates_valid_witness:
  "list_all (\<lambda>r. date r \<noteq> None) (processedData env_utc rows_unordered)
   \<and> sorted_by_date (processedData env_utc rows_unordered)
   \<and> stable_by_id (processedData env_utc rows_unordered)
   \<and> map date (processedData env_utc rows_unordered) = [Some 1704067200000, Some 1704240000000]"
proof -
  have a: "list_all (\<lambda>r. date r \<noteq> None) (processedData env_utc rows_unordered)"
    by code_simp
  have b: "map date (processedData env_utc rows_unordered) = [Some 1704067200000, Some 1704240000000]"
    by code_simp
  from a have "\<forall>r \<in> set (processedData env_utc rows_unordered). date r \<noteq> None"
    by (simp add: list_all_iff)
  from sorted_stable_when_dates_valid [OF this] a b show ?thesis by simp
qed

text \<open>
  Claim C3 as it is stated, for any input, fails: a reading with an invalid date is kept
  (claim C8), the comparator gives NaN against it, and the sort moves nothing past it. On
  \<open>rows_bad_date\<close> the normalized collection has 2 January before 1 January.
\<close>

theorem unsorted_with_invalid_date_counterexample:
  "map date (processedData env_utc rows_bad_date)
     = [Some 1704153600000, None, Some 1704067200000]
   \<and> \<not> sorted_by_date (processedData env_utc rows_bad_date)
   \<and> \<not> sorted_by_date (filter (\<lambda>r. date r \<noteq> None) (processedData env_utc rows_bad_date))"
  by code_simp

section \<open>The claims about the aggregator\<close>



text \<open>
  Claim C6. A normalized reading of type exactly \<^verbatim>\<open>FASTING\<close> is in the fasting partition and
  not in the random one; one of type exactly \<^verbatim>\<open>RANDOM\<close> is in the random partition and not in
  the fasting one; one of any other type (\<^verbatim>\<open>UNKNOWN\<close> among them) is in neither. The overall
  group reports over all readings, whatever their type, and the two other groups over
  their partitions.
\<close>

theorem partition_by_type:
  "(\<forall>r \<in> set (processedData e rows).
      (type_r r = JStr ''FASTING'' \<longrightarrow>
         r \<in> set (fastingData (processedData e rows)) \<and> r \<notin> set (randomData (processedData e rows)))
    \<and> (type_r r = JStr ''RANDOM'' \<longrightarrow>
         r \<in> set (randomData (processedData e rows)) \<and> r \<notin> set (fastingData (processedData e rows)))
    \<and> (type_r r \<noteq> JStr ''FASTING'' \<and> type_r r \<noteq> JStr ''RANDOM'' \<longrightarrow>
         r \<notin> set (fastingData (processedData e rows)) \<and> r \<notin> set (randomData (processedData e rows))))
   \<and> reports e (processedData e rows) (overall (dashboard_stats e rows))
   \<and> reports e (fastingData (processedData e rows)) (fasting (dashboard_stats e rows))
   \<and> reports e (randomData (processedData e rows)) (random (dashboard_stats e rows))"
proof (intro conjI)
  show "\<forall>r \<in> set (processedData e rows).
      (type_r r = JStr ''FASTING'' \<longrightarrow>
         r \<in> set (fastingData (processedData e rows)) \<and> r \<notin> set (randomData (processedData e rows)))
    \<and> (type_r r = JStr ''RANDOM'' \<longrightarrow>
         r \<in> set (randomData (processedData e rows)) \<and> r \<notin> set (fastingData (processedData e rows)))
    \<and> (type_r r \<noteq> JStr ''FASTING'' \<and> type_r r \<noteq> JStr ''RANDOM'' \<longrightarrow>
         r \<notin> set (fastingData (processedData e rows)) \<and> r \<notin> set (randomData (processedData e rows)))"
    by (simp add: fastingData_def randomData_def)
  show "reports e (processedData e rows) (overall (dashboard_stats e rows))"
    "reports e (fastingData (processedData e rows)) (fasting (dashboard_stats e rows))"
    "reports e (randomData (processedData e rows)) (random (dashboard_stats e rows))"
    by (rule dashboard_reports)+
qed

theorem partition_by_type_witness:
  "type_r (mixed_readings ! 0) = JStr ''FASTING''
   \<and> mixed_readings ! 0 \<in> set (fastingData mixed_readings)
   \<and> mixed_readings ! 0 \<notin> set (randomData mixed_readings)
   \<and> type_r (mixed_readings ! 2) = JStr ''RANDOM''
   \<and> mixed_readings ! 2 \<in> set (randomData mixed_readings)
   \<and> mixed_readings ! 2 \<notin> set (fastingData mixed_readings)
   \<and> type_r (mixed_readings ! 1) = JStr ''UNKNOWN''
   \<and> mixed_readings ! 1 \<notin> set (fastingData mixed_readings)
   \<and> mixed_readings ! 1 \<notin> set (randomData mixed_readings)
   \<and> type_r (mixed_readings ! 3) = JStr ''fasting''
   \<and> mixed_readings ! 3 \<notin> set (fastingData mixed_readings)
   \<and> count (overall (dashboard_stats env_utc rows_mixed)) = 4"
proof -
  have mem: "mixed_readings ! 0 \<in> set mixed_readings" "mixed_readings ! 1 \<in> set mixed_readings"
    "mixed_readings ! 2 \<in> set mixed_readings" "mixed_readings ! 3 \<in> set mixed_readings"
    by code_simp+
  have ty: "type_r (mixed_readings ! 0) = JStr ''FASTING''"
    "type_r (mixed_readings ! 2) = JStr ''RANDOM''"
    "type_r (mixed_readings ! 1) = JStr ''UNKNOWN''"
    "type_r (mixed_readings ! 3) = JStr ''fasting''"
    by code_simp+
  have l: "length mixed_readings = 4" "mixed_readings \<noteq> []"
    by code_simp+
  note p = partition_by_type [of env_utc rows_mixed, folded mixed_readings_def]
  from p have "reports env_utc mixed_readings (overall (dashboard_stats env_utc rows_mixed))"
    by blast
  with l have c: "count (overall (dashboard_stats env_utc rows_mixed)) = 4"
    by (simp add: reports_def Let_def)
  from p have ball: "\<forall>r \<in> set mixed_readings.
      (type_r r = JStr ''FASTING'' \<longrightarrow>
         r \<in> set (fastingData mixed_readings) \<and> r \<notin> set (randomData mixed_readings))
    \<and> (type_r r = JStr ''RANDOM'' \<longrightarrow>
         r \<in> set (randomData mixed_readings) \<and> r \<notin> set (fastingData mixed_readings))
    \<and> (type_r r \<noteq> JStr ''FASTING'' \<and> type_r r \<noteq> JStr ''RANDOM'' \<longrightarrow>
         r \<notin> set (fastingData mixed_readings) \<and> r \<notin> set (randomData mixed_readings))"
    by (rule conjunct1)
  from bspec [OF ball mem(1)] ty(1) have r0:
    "mixed_readings ! 0 \<in> set (fastingData mixed_readings)"
    "mixed_readings ! 0 \<notin> set (randomData mixed_readings)"
    by simp_all
  from bspec [OF ball mem(3)] ty(2) have r2:
    "mixed_readings ! 2 \<in> set (randomData mixed_readings)"
    "mixed_readings ! 2 \<notin> set (fastingData mixed_readings)"
    by simp_all
  from bspec [OF ball mem(2)] ty(3) have r1:
    "mixed_readings ! 1 \<notin> set (fastingData mixed_readings)"
    "mixed_readings ! 1 \<notin> set (randomData mixed_readings)"
    by simp_all
  from bspec [OF ball mem(4)] ty(4) have r3:
    "mixed_readings ! 3 \<notin> set (fastingData mixed_readings)"
    by simp
  from r0 r1 r2 r3
  ty c show ?thesis by simp
qed

text \<open>
  Claim C10. The overall count is the size of the normalized collection; the fasting count
  plus the random count is at most the overall count, and equal to it exactly when every
  normalized reading has the type \<^verbatim>\<open>FASTING\<close> or \<^verbatim>\<open>RANDOM\<close>.
\<close>

theorem counts_add_up:
  "count (overall (dashboard_stats e rows)) = length (processedData e rows)
   \<and> count (fasting (dashboard_stats e rows)) + count (random (dashboard_stats e rows))
       \<le> count (overall (dashboard_stats e rows))
   \<and> (count (fasting (dashboard_stats e rows)) + count (random (dashboard_stats e rows))
        = count (overall (dashboard_stats e rows))
      \<longleftrightarrow> (\<forall>r \<in> set (processedData e rows). type_r r = JStr ''FASTING'' \<or> type_r r = JStr ''RANDOM''))"
proof -
  let ?pd = "processedData e rows"
  let ?T = "\<lambda>r. type_r r = JStr ''FASTING'' \<or> type_r r = JStr ''RANDOM''"
  have sum: "length (fastingData ?pd) + length (randomData ?pd) = length (filter ?T ?pd)"
    unfolding fastingData_def randomData_def by (rule length_two_filters) auto
  have le: "length (filter ?T ?pd) \<le> length ?pd"
    by (rule length_filter_le)
  have eq: "length (filter ?T ?pd) = length ?pd \<longleftrightarrow> (\<forall>r \<in> set ?pd. ?T r)"
    by (rule length_filter_all)
  from sum le eq show ?thesis
    by (simp add: dashboard_stats_def Let_def stats_counts)
qed

theorem counts_add_up_witness:
  "count (overall (dashboard_stats env_utc rows_mixed)) = 4
   \<and> type_r (mixed_readings ! 1) = JStr ''UNKNOWN''
   \<and> count (fasting (dashboard_stats env_utc rows_mixed))
        + count (random (dashboard_stats env_utc rows_mixed)) < 4
   \<and> list_all (\<lambda>r. type_r r = JStr ''FASTING'' \<or> type_r r = JStr ''RANDOM'')
        (processedData env_utc scenario_rows)
   \<and> count (fasting (dashboard_stats env_utc scenario_rows))
        + count (random (dashboard_stats env_utc scenario_rows))
      = count (overall (dashboard_stats env_utc scenario_rows))"
proof -
  have l: "length (processedData env_utc rows_mixed) = 4"
    by code_simp
  have mem: "mixed_readings ! 1 \<in> set (processedData env_utc rows_mixed)"
    by code_simp
  have ty: "type_r (mixed_readings ! 1) = JStr ''UNKNOWN''"
    by code_simp
  have al: "list_all (\<lambda>r. type_r r = JStr ''FASTING'' \<or> type_r r = JStr ''RANDOM'')
        (processedData env_utc scenario_rows)"
    by code_simp
  note c1 = counts_add_up [of env_utc rows_mixed]
  note c2 = counts_add_up [of env_utc scenario_rows]
  from c1 l have a: "count (overall (dashboard_stats env_utc rows_mixed)) = 4"
    by simp
  from mem ty have "\<not> (\<forall>r \<in> set (processedData env_utc rows_mixed).
      type_r r = JStr ''FASTING'' \<or> type_r r = JStr ''RANDOM'')"
    by force
  with c1 a have b: "count (fasting (dashboard_stats env_utc rows_mixed))
        + count (random (dashboard_stats env_utc rows_mixed)) < 4"
    by linarith
  from al have "\<forall>r \<in> set (processedData env_utc scenario_rows).
      type_r r = JStr ''FASTING'' \<or> type_r r = JStr ''RANDOM''"
    by (simp add: list_all_iff)
  with c2 have "count (fasting (dashboard_stats env_utc scenario_rows))
        + count (random (dashboard_stats env_utc scenario_rows))
      = count (overall (dashboard_stats env_utc scenario_rows))"
    by blast
  with a b ty al show ?thesis by simp
qed




section \<open>The claims about the display labels and the loader\<close>

text \<open>
  Claim C2. Two readings of the normalized collection with the same day label have
  different display labels. The code gives the first occurrence the bare day label and
  each later one the time in parentheses, or the occurrence number when it has no time
  (\<open>label_of_reading\<close>); but two later occurrences with the same time get the same display
  label, as the second and the third reading of \<open>rows_same_time\<close> do.
\<close>

theorem same_time_same_label:
  "map dateStr (processedData env_utc rows_same_time) = [''Jan 1'', ''Jan 1'', ''Jan 1'']
   \<and> map displayDate (processedData env_utc rows_same_time)
       = [Some ''Jan 1'', Some ''Jan 1 (14:00)'', Some ''Jan 1 (14:00)'']
   \<and> displayDate (processedData env_utc rows_same_time ! 1)
       = displayDate (processedData env_utc rows_same_time ! 2)"
  by code_simp

text \<open>
  Claim C1. When the remote fetch is rejected, the loader still tries the local fallback,
  and when both fail the error message refers to both sources. The code falls back only on
  a response that is not ok (\<open>http_error_remote_in_general\<close>); a rejected fetch goes to the
  \<^verbatim>\<open>catch\<close> block at once (\<open>rejected_remote_in_general\<close>): the local file is never
  fetched, and the message is that of the rejection alone.
\<close>

theorem rejected_fetch_no_fallback:
  "error (loadCSVData env_rejecting initial_state) = Some ''Error loading CSV file: Failed to fetch''
   \<and> fetched (loadCSVData env_rejecting initial_state)
       = [''https://docs.google.com/spreadsheets/d/sheet123/export?format=csv&gid=0'']
   \<and> LOCAL_CSV_URL \<notin> set (fetched (loadCSVData env_rejecting initial_state))
   \<and> loading (loadCSVData env_rejecting initial_state) = False"
  by code_simp


end
